theory Spec2Isabelle
  imports Complex_Main "HOL-Library.Word" "HOL-Library.AList"
begin

section \<open>The track encoder of cdimage\<close>

text \<open>
  A shallow embedding of the converter (\<open>Convert\<close>, \<open>ad\<close>, \<open>n2m\<close>, \<open>bw\<close>), of the
  parallel pipeline (\<open>ConvertParallel\<close>, \<open>processTrack\<close>) and of the parameter handling
  of \<open>burnImage\<close>.

  Conventions of the embedding:
  \<^item> a Go \<open>byte\<close> is an \<open>8 word\<close>; a Go \<open>int\<close> (64 bit) is an \<open>int\<close>: every integer
    of the encoder stays far below \<open>2^63\<close>;
  \<^item> a Go \<open>float64\<close> is a \<open>rat\<close>: the spiral recurrences are computed exactly and
    the rounding of IEEE arithmetic is not modelled. The concrete inputs used below
    (integers and halves of small magnitude) are computed without rounding by
    \<open>float64\<close> as well;
  \<^item> a run-time panic (an index out of range) is the error value \<open>IndexOutOfRange\<close>;
  \<^item> the output file is the list of bytes written so far, on a device with \<open>room\<close>
    free bytes: a write that does not fit fails and writes nothing.
\<close>

subsection \<open>Constants\<close>

type_synonym byte = "8 word"

definition D :: int where
  "D = 4"

definition SectorSize :: nat where
  "SectorSize = 2352"

definition CDTotalSize :: int where
  "CDTotalSize = 800 * 1024 * 1024"

definition DVDTotalSize :: int where
  "DVDTotalSize = 4700 * 1024 * 1024"

definition delays :: "int list" where
  "delays =
    [- 24 * 3, - 24 * (1 * D + 2) + 1, 8 - 24 * (2 * D + 3), 8 - 24 * (3 * D + 2) + 1,
     16 - 24 * (4 * D + 3), 16 - 24 * (5 * D + 2) + 1, 2 - 24 * (6 * D + 3), 2 - 24 * (7 * D + 2) + 1,
     10 - 24 * (8 * D + 3), 10 - 24 * (9 * D + 2) + 1, 18 - 24 * (10 * D + 3), 18 - 24 * (11 * D + 2) + 1,
     4 - 24 * (16 * D + 1), 4 - 24 * (17 * D) + 1, 12 - 24 * (18 * D + 1), 12 - 24 * (19 * D) + 1,
     20 - 24 * (20 * D + 1), 20 - 24 * (21 * D) + 1, 6 - 24 * (22 * D + 1), 6 - 24 * (23 * D) + 1,
     14 - 24 * (24 * D + 1), 14 - 24 * (25 * D) + 1, 22 - 24 * (26 * D + 1), 22 - 24 * (27 * D) + 1]"

definition palette :: "byte list" where
  "palette = [0x10, 0x21, 0x28, 0xAA]"

subsection \<open>Errors and the output file\<close>

datatype error =
    CreateFailed          \<comment> \<open>\<open>os.Create\<close> failed\<close>
  | WriteFailed           \<comment> \<open>\<open>file.Write\<close> failed\<close>
  | ConversionCancelled   \<comment> \<open>the cancel callback answered true\<close>
  | ContextCancelled      \<comment> \<open>\<open>ctx.Err()\<close> after \<open>ctx.Done()\<close>\<close>
  | IndexOutOfRange       \<comment> \<open>a run-time panic of an array access\<close>
  | SliceCapOutOfRange    \<comment> \<open>a run-time panic of \<open>make\<close> with a negative capacity\<close>
  | InvalidDiscType
  | LoadFailed
  | PresetNotFound
  | PresetMismatch
  | OutputMissing

record outfile =
  written :: "byte list"
  room :: nat

definition file_Write :: "byte list \<Rightarrow> outfile \<Rightarrow> error + outfile" where
  "file_Write bs f =
    (if length bs \<le> room f
     then Inr (f\<lparr>written := written f @ bs, room := room f - length bs\<rparr>)
     else Inl WriteFailed)"

subsection \<open>The converter and its interleaver\<close>

text \<open>
  The struct \<open>Converter\<close>. Its field \<open>c\<close> (the fill of the sector buffer) is \<open>conv_c\<close>
  here, \<open>c\<close> being also the sample accumulator of \<open>Convert\<close>. The two callbacks are
  part of the environment of a run (below).
\<close>

record Converter =
  tr0 :: rat
  dtr :: rat
  r0 :: rat
  mixColors :: bool
  discType :: string
  intseq :: "byte list"
  nh :: int
  pinf :: int
  buffer :: "byte list"
  conv_c :: int

definition NewConverter :: "rat \<Rightarrow> rat \<Rightarrow> rat \<Rightarrow> bool \<Rightarrow> string \<Rightarrow> Converter" where
  "NewConverter t d rr mix dt =
    \<lparr>tr0 = t, dtr = d, r0 = rr, mixColors = mix, discType = dt,
     intseq = replicate (nat (24 * 28 * D)) 0, nh = 28 * D - 1, pinf = 0,
     buffer = replicate SectorSize 0, conv_c = 0\<rparr>"

definition n2m :: "Converter \<Rightarrow> int \<Rightarrow> int" where
  "n2m conv n =
    (let index = nh conv * 24 + n in
     if index \<ge> 28 * 4 * 24 then index - 28 * 4 * 24
     else if index < 0 then index + 28 * 4 * 24
     else index)"

definition bw :: "byte \<Rightarrow> Converter \<times> outfile \<Rightarrow> error + Converter \<times> outfile" where
  "bw b s =
    (let (conv, f) = s in
     if 0 \<le> conv_c conv \<and> conv_c conv < int (length (buffer conv)) then
       let conv1 = conv\<lparr>buffer := (buffer conv)[nat (conv_c conv) := b],
                         conv_c := conv_c conv + 1\<rparr>
       in if conv_c conv1 \<ge> int SectorSize then
            (case file_Write (buffer conv1) f of
               Inl e \<Rightarrow> Inl e
             | Inr f' \<Rightarrow> Inr (conv1\<lparr>conv_c := 0\<rparr>, f'))
          else Inr (conv1, f)
     else Inl IndexOutOfRange)"

text \<open>The loop \<open>for i := 0; i < 24; i++\<close> of \<open>ad\<close>, over the list of its indices.\<close>

fun ad_emit :: "nat list \<Rightarrow> Converter \<times> outfile \<Rightarrow> error + Converter \<times> outfile" where
  "ad_emit [] s = Inr s"
| "ad_emit (i # is) s =
    (let m = n2m (fst s) (int i) in
     if 0 \<le> m \<and> m < int (length (intseq (fst s))) then
       (case bw (intseq (fst s) ! nat m) s of
          Inl e \<Rightarrow> Inl e
        | Inr s' \<Rightarrow> ad_emit is s')
     else Inl IndexOutOfRange)"

definition ad :: "byte \<Rightarrow> Converter \<times> outfile \<Rightarrow> error + Converter \<times> outfile" where
  "ad b s =
    (let (conv, f) = s in
     if 0 \<le> pinf conv \<and> pinf conv < int (length delays) then
       let m = n2m conv (delays ! nat (pinf conv)) in
       if 0 \<le> m \<and> m < int (length (intseq conv)) then
         let conv1 = conv\<lparr>intseq := (intseq conv)[nat m := b], pinf := pinf conv + 1\<rparr>
         in if pinf conv1 \<ge> 24 then
              let conv2 = conv1\<lparr>pinf := 0, nh := nh conv1 + 1\<rparr>;
                  conv3 = (if nh conv2 \<ge> 28 * 4 then conv2\<lparr>nh := 0\<rparr> else conv2)
              in ad_emit [0..<24] (conv3, f)
            else Inr (conv1, f)
       else Inl IndexOutOfRange
     else Inl IndexOutOfRange)"

subsection \<open>Quantization\<close>

text \<open>
  Lines 152 to 172 of \<open>Convert\<close> (and the same lines of \<open>processTrack\<close>): the palette
  index \<open>cl\<close> of a gray value. \<open>rnd\<close> is the value drawn by \<open>rand.Intn(85)\<close>, used in
  the mixing mode only.
\<close>

definition quantize :: "bool \<Rightarrow> int \<Rightarrow> int \<Rightarrow> int \<Rightarrow> byte \<Rightarrow> byte" where
  "quantize mix rnd zs zf grayValue =
    (let c1 = grayValue div 85;
         c2 = c1 + 1;
         c2 = (if c2 > 3 then 3 else c2);
         grayMod = uint (grayValue mod 85)
     in if mix then (if rnd < grayMod \<or> grayMod = 84 then c2 else c1)
        else (if grayMod > zs * 5 + zf \<or> grayMod = 84 then c2 else c1))"

definition palette_at :: "byte \<Rightarrow> error + byte" where
  "palette_at cl = (if unat cl < length palette then Inr (palette ! unat cl) else Inl IndexOutOfRange)"

subsection \<open>The environment of a run\<close>

text \<open>
  What a run reads from outside the encoder:
  \<^item> \<open>gray_at cx cy ri itr i\<close> is the gray value of sample \<open>i\<close> of a track: lines 144 to
    150 of \<open>Convert\<close> (247 to 253 of \<open>processTrack\<close>), that is \<open>rgbaToGray\<close> of
    \<open>sampleImage\<close> at the point of angle \<open>2\<pi>i/itr\<close> and radius \<open>ri\<close> around
    \<open>(cx, cy)\<close>. The trigonometry in floating point and the image are not modelled
    further;
  \<^item> \<open>rand_Intn k i\<close> is the value \<open>rand.Intn(85)\<close> returns at sample \<open>i\<close> of track \<open>k\<close>;
  \<^item> \<open>cancelCallback\<close> is \<open>None\<close> for a nil callback, and otherwise gives the answer of
    the callback when it is called before track \<open>k\<close>; \<open>ctx_Done k\<close> says whether
    \<open>ctx.Done()\<close> is ready at that moment;
  \<^item> \<open>progressCallback\<close> says whether a progress callback is set; the values it is
    called with are recorded in the history \<open>reported\<close> of the run;
  \<^item> for the parallel pipeline, \<open>ctx_Done_send k\<close> says whether the job generator
    takes the \<open>ctx.Done()\<close> branch when it offers job \<open>k\<close>, \<open>ctx_Done_worker k i\<close>
    whether the worker of track \<open>k\<close> sees the context done before sample \<open>i\<close>, and
    \<open>ctx_Done_result k\<close> whether the worker drops the result of track \<open>k\<close>.
\<close>

record env =
  imgWidth :: int
  imgHeight :: int
  gray_at :: "rat \<Rightarrow> rat \<Rightarrow> rat \<Rightarrow> int \<Rightarrow> int \<Rightarrow> byte"
  rand_Intn :: "nat \<Rightarrow> int \<Rightarrow> int"
  cancelCallback :: "(nat \<Rightarrow> bool) option"
  ctx_Done :: "nat \<Rightarrow> bool"
  progressCallback :: bool
  create_ok :: bool
  disk_room :: nat
  ctx_Done_send :: "nat \<Rightarrow> bool"
  ctx_Done_worker :: "nat \<Rightarrow> int \<Rightarrow> bool"
  ctx_Done_result :: "nat \<Rightarrow> bool"

text \<open>The conversion \<open>int(x)\<close> of a \<open>float64\<close>: truncation towards zero.\<close>

definition go_int :: "rat \<Rightarrow> int" where
  "go_int x = (if x < 0 then - \<lfloor>- x\<rfloor> else \<lfloor>x\<rfloor>)"

subsection \<open>The sequential encoder\<close>

text \<open>
  The state a run of \<open>Convert\<close> threads through its loops: the converter, the output
  file, and two histories that the code does not keep: \<open>fed\<close>, the bytes passed to
  \<open>ad\<close> so far, and \<open>reported\<close>, the values passed to the progress callback so far.
\<close>

record run =
  conv :: Converter
  out :: outfile
  fed :: "byte list"
  reported :: "int list"

definition feed :: "byte \<Rightarrow> run \<Rightarrow> error + run" where
  "feed b s =
    (case ad b (conv s, out s) of
       Inl e \<Rightarrow> Inl e
     | Inr (cv, f) \<Rightarrow> Inr (s\<lparr>conv := cv, out := f, fed := fed s @ [b]\<rparr>))"

text \<open>
  The loop over the samples of one track (lines 143 to 182), over the list
  \<open>[0..<itr]\<close> of its indices. The state is the sample phase \<open>zf\<close> and the run.
\<close>

fun track_loop ::
  "env \<Rightarrow> bool \<Rightarrow> nat \<Rightarrow> rat \<Rightarrow> rat \<Rightarrow> rat \<Rightarrow> int \<Rightarrow> int \<Rightarrow> nat list \<Rightarrow> int \<times> run \<Rightarrow> error + int \<times> run"
where
  "track_loop e mix k cx cy ri itr zs [] s = Inr s"
| "track_loop e mix k cx cy ri itr zs (i # is) s =
    (let grayValue = gray_at e cx cy ri itr (int i);
         cl = quantize mix (rand_Intn e k (int i)) zs (fst s) grayValue
     in case palette_at cl of
          Inl x \<Rightarrow> Inl x
        | Inr b \<Rightarrow>
            (case feed b (snd s) of
               Inl x \<Rightarrow> Inl x
             | Inr s' \<Rightarrow>
                 track_loop e mix k cx cy ri itr zs is
                   (let zf = fst s + 1 in if zf \<ge> 5 then 0 else zf, s')))"

text \<open>The loop \<open>for int(c) > ic\<close> that fills the remaining samples (lines 188 to 197).\<close>

function pad_loop :: "rat \<Rightarrow> int \<Rightarrow> int \<times> run \<Rightarrow> error + int \<times> run" where
  "pad_loop c ic s =
    (if go_int c > ic then
       (case palette_at 0 of
          Inl x \<Rightarrow> Inl x
        | Inr b \<Rightarrow>
            (case feed b (snd s) of
               Inl x \<Rightarrow> Inl x
             | Inr s' \<Rightarrow>
                 pad_loop c (ic + 1) (let zf = fst s + 1 in if zf \<ge> 4 then 0 else zf, s')))
     else Inr s)"
  by pat_completeness auto
termination
  by (relation "measure (\<lambda>(c, ic, s). nat (go_int c - ic))") auto

text \<open>
  One iteration of the loop over the tracks (lines 117 to 205). The locals are
  \<open>(tr, r, c, zs, zf)\<close>; \<open>k\<close> counts the iterations. An error ends the run; on the two
  cancellations the code removes the output file before it returns.
\<close>

type_synonym locals = "rat \<times> rat \<times> rat \<times> int \<times> int"

definition Convert_body ::
  "env \<Rightarrow> int \<Rightarrow> rat \<Rightarrow> nat \<Rightarrow> locals \<times> run \<Rightarrow> error + locals \<times> run"
where
  "Convert_body e totalSize dr k st =
    (let ((tr, r, c, zs, zf), s) = st in
     if (case cancelCallback e of None \<Rightarrow> False | Some cb \<Rightarrow> cb k) then Inl ConversionCancelled
     else if ctx_Done e k then Inl ContextCancelled
     else
       let s1 = (if progressCallback e
                 then s\<lparr>reported := reported s @ [go_int (100 * c / of_int totalSize)]\<rparr>
                 else s);
           itr = go_int tr;
           ri = 1500 * r / (115 / 2);
           cx = of_int (imgWidth e) / 2;
           cy = of_int (imgHeight e) / 2
       in case track_loop e (mixColors (conv s1)) k cx cy ri itr zs [0..<nat itr] (zf, s1) of
            Inl x \<Rightarrow> Inl x
          | Inr s2 \<Rightarrow>
              let c = c + tr;
                  ic = go_int c
              in (case pad_loop c ic s2 of
                    Inl x \<Rightarrow> Inl x
                  | Inr (zf, s3) \<Rightarrow>
                      let tr = tr + dtr (conv s3);
                          r = r + dr;
                          zs = zs + 1;
                          zs = (if zs \<ge> 17 then 0 else zs)
                      in Inr ((tr, r, c, zs, zf), s3)))"

text \<open>
  The loop \<open>for c < float64(totalSize)-tr\<close>. It need not end (with \<open>tr0 < 0\<close> and
  \<open>dtr = 0\<close> it never does), so it runs on fuel: \<open>None\<close> is a run that has not
  returned within \<open>n\<close> tests of the loop condition.
\<close>

fun Convert_loop ::
  "nat \<Rightarrow> env \<Rightarrow> int \<Rightarrow> rat \<Rightarrow> nat \<Rightarrow> locals \<times> run \<Rightarrow> (error + nat \<times> locals \<times> run) option"
where
  "Convert_loop 0 e totalSize dr k st = None"
| "Convert_loop (Suc n) e totalSize dr k st =
    (let ((tr, r, c, zs, zf), s) = st in
     if c < of_int totalSize - tr then
       (case Convert_body e totalSize dr k st of
          Inl x \<Rightarrow> Some (Inl x)
        | Inr st' \<Rightarrow> Convert_loop n e totalSize dr (Suc k) st')
     else Some (Inr (k, st)))"

text \<open>
  \<open>Convert\<close>. A successful run returns the number of tracks, the final locals and
  the final state, whose \<open>out\<close> is the output file. In floating point
  \<open>dtr * r0 / tr0\<close> is not a number when \<open>tr0 = 0\<close>; here it is \<open>0\<close>, and it only
  reaches \<open>gray_at\<close>.
\<close>

definition Convert :: "nat \<Rightarrow> env \<Rightarrow> Converter \<Rightarrow> (error + nat \<times> locals \<times> run) option" where
  "Convert fuel e cv =
    (let totalSize = (if discType cv = ''dvd'' then DVDTotalSize else CDTotalSize) in
     if \<not> create_ok e then Some (Inl CreateFailed)
     else
       let f = \<lparr>written = [], room = disk_room e\<rparr>;
           tr = tr0 cv;
           r = r0 cv;
           dr = dtr cv * r0 cv / tr0 cv;
           c = 0;
           zs = 0;
           zf = 0
       in case Convert_loop fuel e totalSize dr 0
                 ((tr, r, c, zs, zf), \<lparr>conv = cv, out = f, fed = [], reported = []\<rparr>) of
            None \<Rightarrow> None
          | Some (Inl x) \<Rightarrow> Some (Inl x)
          | Some (Inr (k, l, s)) \<Rightarrow>
              if conv_c (conv s) > 0 then
                if conv_c (conv s) \<le> int (length (buffer (conv s))) then
                  (case file_Write (take (nat (conv_c (conv s))) (buffer (conv s))) (out s) of
                     Inl x \<Rightarrow> Some (Inl x)
                   | Inr f' \<Rightarrow> Some (Inr (k, l, s\<lparr>out := f'\<rparr>)))
                else Some (Inl IndexOutOfRange)
              else Some (Inr (k, l, s)))"

subsection \<open>The parallel pipeline\<close>

text \<open>
  The structs \<open>TrackJob\<close> and \<open>TrackResult\<close>; their fields carry the prefixes \<open>job_\<close>
  and \<open>res_\<close>. A track index is a counter from \<open>0\<close>, a \<open>nat\<close> here.
\<close>

record TrackJob =
  job_trackIndex :: nat
  job_tr :: rat
  job_r :: rat
  job_rcd :: rat
  job_cx :: rat
  job_cy :: rat
  job_ir :: rat
  job_itr :: int
  job_zs :: int
  job_zf :: int

record TrackResult =
  res_trackIndex :: nat
  res_data :: "byte list"
  res_err :: "error option"

text \<open>
  The job generator (lines 135 to 188): the jobs it sends, in order, and the values it
  passes to the progress callback. Like the loop of \<open>Convert\<close> it runs on fuel.
\<close>

fun gen_jobs ::
  "nat \<Rightarrow> env \<Rightarrow> rat \<Rightarrow> int \<Rightarrow> rat \<Rightarrow> locals \<times> nat \<Rightarrow> (TrackJob list \<times> int list) option"
where
  "gen_jobs 0 e dtr0 totalSize dr st = None"
| "gen_jobs (Suc n) e dtr0 totalSize dr st =
    (let ((tr, r, c, zs, zf), trackIndex) = st in
     if c < of_int totalSize - tr then
       if ctx_Done e trackIndex then Some ([], [])
       else if (case cancelCallback e of None \<Rightarrow> False | Some cb \<Rightarrow> cb trackIndex) then Some ([], [])
       else
         let rep = (if progressCallback e then [go_int (100 * c / of_int totalSize)] else []);
             itr = go_int tr;
             job = \<lparr>job_trackIndex = trackIndex, job_tr = tr, job_r = r, job_rcd = 115 / 2,
                    job_cx = of_int (imgWidth e) / 2, job_cy = of_int (imgHeight e) / 2,
                    job_ir = 1500, job_itr = itr, job_zs = zs, job_zf = zf\<rparr>
         in if ctx_Done_send e trackIndex then Some ([], rep)
            else
              let c = c + tr;
                  tr = tr + dtr0;
                  r = r + dr;
                  trackIndex = trackIndex + 1;
                  zs = zs + 1;
                  zs = (if zs \<ge> 17 then 0 else zs)
              in (case gen_jobs n e dtr0 totalSize dr ((tr, r, c, zs, zf), trackIndex) of
                    None \<Rightarrow> None
                  | Some (js, reps) \<Rightarrow> Some (job # js, rep @ reps))
     else Some ([], []))"

text \<open>
  \<open>processTrack\<close>: the pair \<open>(data, err)\<close> it returns, or \<open>Inl\<close> a panic. The state
  of its loop is \<open>localZf\<close> and \<open>trackData\<close>.
\<close>

fun processTrack_loop ::
  "env \<Rightarrow> bool \<Rightarrow> TrackJob \<Rightarrow> rat \<Rightarrow> nat list \<Rightarrow> int \<times> byte list \<Rightarrow> error + byte list \<times> error option"
where
  "processTrack_loop e mix job ri [] s = Inr (snd s, None)"
| "processTrack_loop e mix job ri (i # is) s =
    (if ctx_Done_worker e (job_trackIndex job) (int i) then Inr ([], Some ContextCancelled)
     else
       let grayValue = gray_at e (job_cx job) (job_cy job) ri (job_itr job) (int i);
           cl = quantize mix (rand_Intn e (job_trackIndex job) (int i)) (job_zs job) (fst s) grayValue
       in case palette_at cl of
            Inl x \<Rightarrow> Inl x
          | Inr b \<Rightarrow>
              processTrack_loop e mix job ri is
                (let localZf = fst s + 1 in if localZf \<ge> 5 then 0 else localZf, snd s @ [b]))"

definition processTrack :: "env \<Rightarrow> bool \<Rightarrow> TrackJob \<Rightarrow> error + byte list \<times> error option" where
  "processTrack e mix job =
    (let ri = job_ir job * job_r job / job_rcd job in
     if job_itr job * 4 < 0 then Inl SliceCapOutOfRange
     else processTrack_loop e mix job ri [0..<nat (job_itr job)] (job_zf job, []))"

text \<open>The result a worker publishes for a job (lines 214 to 221).\<close>

definition trackWorker :: "env \<Rightarrow> bool \<Rightarrow> TrackJob \<Rightarrow> error + TrackResult" where
  "trackWorker e mix job =
    (case processTrack e mix job of
       Inl x \<Rightarrow> Inl x
     | Inr (d, er) \<Rightarrow> Inr \<lparr>res_trackIndex = job_trackIndex job, res_data = d, res_err = er\<rparr>)"

text \<open>
  The result collector (lines 100 to 131). The map \<open>trackBuffer\<close> is an association
  list; \<open>wrote\<close> is a history the code does not keep: the index and the bytes of every
  successful \<open>file.Write\<close>, in order.
\<close>

record collector =
  trackBuffer :: "(nat \<times> byte list) list"
  nextTrackToWrite :: nat
  cfile :: outfile
  wrote :: "(nat \<times> byte list) list"

function drain :: "collector \<Rightarrow> collector" where
  "drain s =
    (case map_of (trackBuffer s) (nextTrackToWrite s) of
       Some d \<Rightarrow>
         (case file_Write d (cfile s) of
            Inl x \<Rightarrow> s
          | Inr f' \<Rightarrow>
              drain (s\<lparr>cfile := f',
                       wrote := wrote s @ [(nextTrackToWrite s, d)],
                       trackBuffer := AList.delete (nextTrackToWrite s) (trackBuffer s),
                       nextTrackToWrite := nextTrackToWrite s + 1\<rparr>))
     | None \<Rightarrow> s)"
  by pat_completeness auto
termination
proof (relation "measure (\<lambda>s. length (trackBuffer s))")
  show "wf (measure (\<lambda>s. length (trackBuffer s)))"
    by simp
next
  fix s :: collector and d f'
  assume "map_of (trackBuffer s) (nextTrackToWrite s) = Some d"
  then have "(nextTrackToWrite s, d) \<in> set (trackBuffer s)"
    by (rule map_of_SomeD)
  then have "length (filter (\<lambda>p. nextTrackToWrite s \<noteq> fst p) (trackBuffer s)) < length (trackBuffer s)"
    by (intro length_filter_less[where x = "(nextTrackToWrite s, d)"]) auto
  moreover have "AList.delete (nextTrackToWrite s) (trackBuffer s)
      = filter (\<lambda>p. nextTrackToWrite s \<noteq> fst p) (trackBuffer s)"
    by (simp add: AList.delete_eq case_prod_unfold)
  ultimately show "(s\<lparr>cfile := f',
          wrote := wrote s @ [(nextTrackToWrite s, d)],
          trackBuffer := AList.delete (nextTrackToWrite s) (trackBuffer s),
          nextTrackToWrite := nextTrackToWrite s + 1\<rparr>, s)
        \<in> measure (\<lambda>s. length (trackBuffer s))"
    by simp
qed

definition collect_result :: "TrackResult \<Rightarrow> collector \<Rightarrow> collector" where
  "collect_result res s =
    (if res_err res \<noteq> None then s
     else drain (s\<lparr>trackBuffer := AList.update (res_trackIndex res) (res_data res) (trackBuffer s)\<rparr>))"

definition collect_all :: "TrackResult list \<Rightarrow> collector \<Rightarrow> collector" where
  "collect_all rs s = fold collect_result rs s"

text \<open>The workers' results of the jobs at the positions \<open>sched\<close>, or the first panic.\<close>

fun run_workers :: "env \<Rightarrow> bool \<Rightarrow> TrackJob list \<Rightarrow> nat list \<Rightarrow> error + TrackResult list" where
  "run_workers e mix jobs [] = Inr []"
| "run_workers e mix jobs (k # ks) =
    (if k < length jobs then
       (case trackWorker e mix (jobs ! k) of
          Inl x \<Rightarrow> Inl x
        | Inr res \<Rightarrow>
            (case run_workers e mix jobs ks of
               Inl x \<Rightarrow> Inl x
             | Inr rs \<Rightarrow> Inr (if ctx_Done_result e k then rs else res # rs)))
     else run_workers e mix jobs ks)"

text \<open>
  The job generator with the initial locals of \<open>ConvertParallel\<close> (lines 59 to 91).
\<close>

definition job_generator :: "nat \<Rightarrow> env \<Rightarrow> Converter \<Rightarrow> (TrackJob list \<times> int list) option" where
  "job_generator fuel e cv =
    (let totalSize = (if discType cv = ''dvd'' then DVDTotalSize else CDTotalSize);
         tr = tr0 cv;
         r = r0 cv;
         dr = dtr cv * r0 cv / tr0 cv;
         c = 0;
         zs = 0;
         zf = 0;
         trackIndex = 0
     in gen_jobs fuel e (dtr cv) totalSize dr ((tr, r, c, zs, zf), trackIndex))"

text \<open>
  \<open>ConvertParallel\<close>. The goroutines are not modelled: \<open>sched\<close> lists, in the order
  in which the collector receives their results, the positions of the jobs that the
  workers have taken. The value is the error returned (\<open>None\<close> for \<open>nil\<close>), the final
  state of the collector and the progress values reported; \<open>Inl\<close> is a failed
  \<open>os.Create\<close> or a panic.
\<close>

definition ConvertParallel ::
  "nat \<Rightarrow> env \<Rightarrow> Converter \<Rightarrow> nat list \<Rightarrow> (error + error option \<times> collector \<times> int list) option"
where
  "ConvertParallel fuel e cv sched =
    (if \<not> create_ok e then Some (Inl CreateFailed)
     else
       let f = \<lparr>written = [], room = disk_room e\<rparr>
       in case job_generator fuel e cv of
            None \<Rightarrow> None
          | Some (jobs, reps) \<Rightarrow>
              (case run_workers e (mixColors cv) jobs sched of
                 Inl x \<Rightarrow> Some (Inl x)
               | Inr rs \<Rightarrow>
                   Some (Inr (None,
                     collect_all rs \<lparr>trackBuffer = [], nextTrackToWrite = 0, cfile = f, wrote = []\<rparr>,
                     reps))))"

subsection \<open>Presets and the entry point \<open>burnImage\<close>\<close>

record DiscPreset =
  Name :: string
  DiscType :: string
  Tr0 :: rat
  Dtr :: rat
  R0 :: rat

definition GetPresets :: "(string \<times> DiscPreset) list" where
  "GetPresets =
    [(''verbatim-cd-rw-1'',
        \<lparr>Name = ''Verbatim CD-RW Hi-Speed 8x-10x 700 MB SERL 1'', DiscType = ''cd'',
         Tr0 = 2295152 / 100, Dtr = 13865961 / 10000000, R0 = 49 / 2\<rparr>),
     (''verbatim-cd-rw-2'',
        \<lparr>Name = ''Verbatim CD-RW Hi-Speed 8x-10x 700 MB SERL 2'', DiscType = ''cd'',
         Tr0 = 2295107 / 100, Dtr = 13865958 / 10000000, R0 = 49 / 2\<rparr>),
     (''eperformance-cd-rw'',
        \<lparr>Name = ''eProformance CD-RW 4x-10x 700 MB Prodisk Technology Inc'', DiscType = ''cd'',
         Tr0 = 22936085 / 1000, Dtr = 138314 / 100000, R0 = 49 / 2\<rparr>),
     (''tdk-cd-rw'',
        \<lparr>Name = ''TDK CD-RW 4x-12x HIGH SPEED 700MB 80MIN'', DiscType = ''cd'',
         Tr0 = 23000145 / 1000, Dtr = 138659775 / 100000000, R0 = 49 / 2\<rparr>),
     (''generic-dvd-r'',
        \<lparr>Name = ''Generic DVD-R 4.7GB'', DiscType = ''dvd'',
         Tr0 = 48000, Dtr = 74 / 100, R0 = 24\<rparr>),
     (''generic-dvd-rw'',
        \<lparr>Name = ''Generic DVD-RW 4.7GB'', DiscType = ''dvd'',
         Tr0 = 48050, Dtr = 741 / 1000, R0 = 24\<rparr>),
     (''verbatim-dvd-r'',
        \<lparr>Name = ''Verbatim DVD-R 16x 4.7GB'', DiscType = ''dvd'',
         Tr0 = 47980, Dtr = 739 / 1000, R0 = 24\<rparr>),
     (''sony-dvd-rw'',
        \<lparr>Name = ''Sony DVD-RW 4x 4.7GB'', DiscType = ''dvd'',
         Tr0 = 48100, Dtr = 742 / 1000, R0 = 24\<rparr>)]"

definition GetPresetByName :: "string \<Rightarrow> DiscPreset option" where
  "GetPresetByName name = map_of GetPresets name"

text \<open>
  \<open>strings.ToLower\<close> on the letters of ASCII. (On other letters Go yields letters
  outside ASCII again, but for the Kelvin sign: the comparisons with \<open>cd\<close> and \<open>dvd\<close>
  below come out the same.)
\<close>

definition ToLower :: "string \<Rightarrow> string" where
  "ToLower str =
    map (\<lambda>ch. let n = (of_char ch :: nat) in if 65 \<le> n \<and> n \<le> 90 then char_of (n + 32) else ch) str"

text \<open>A map lookup of Go yields the zero value for a missing key.\<close>

definition preset_or_zero :: "string \<Rightarrow> DiscPreset" where
  "preset_or_zero name =
    (case map_of GetPresets name of
       Some p \<Rightarrow> p
     | None \<Rightarrow> \<lparr>Name = [], DiscType = [], Tr0 = 0, Dtr = 0, R0 = 0\<rparr>)"

definition GetDefaultPreset :: "string \<Rightarrow> DiscPreset" where
  "GetDefaultPreset dt =
    (if ToLower dt = ''dvd'' then preset_or_zero ''generic-dvd-r''
     else preset_or_zero ''verbatim-cd-rw-1'')"

text \<open>
  Lines 17 to 69 of \<open>burnImage\<close>: the checks it makes before it builds a converter,
  and the disc type and the parameters \<open>finalTr0\<close>, \<open>finalDtr\<close>, \<open>finalR0\<close> that it
  passes to \<open>NewConverter\<close>. \<open>load_ok\<close> says whether \<open>loadImage\<close> succeeds.
\<close>

definition burnImage_params ::
  "bool \<Rightarrow> string \<Rightarrow> rat \<Rightarrow> rat \<Rightarrow> rat \<Rightarrow> string \<Rightarrow> error + string \<times> rat \<times> rat \<times> rat"
where
  "burnImage_params load_ok dt t d rr preset =
    (let dt = ToLower dt in
     if dt \<noteq> ''cd'' \<and> dt \<noteq> ''dvd'' then Inl InvalidDiscType
     else if \<not> load_ok then Inl LoadFailed
     else if preset \<noteq> [] then
       (case GetPresetByName preset of
          None \<Rightarrow> Inl PresetNotFound
        | Some p \<Rightarrow>
            if DiscType p \<noteq> dt then Inl PresetMismatch
            else Inr (dt, Tr0 p, Dtr p, R0 p))
     else if t = 0 \<or> d = 0 then
       (let p = GetDefaultPreset dt in Inr (dt, Tr0 p, Dtr p, R0 p))
     else Inr (dt, t, d, rr))"

text \<open>
  \<open>burnImage\<close> with \<open>useMultithread\<close> false: the sequential conversion with the
  parameters above. It installs both callbacks. \<open>interrupted\<close> is the value of
  \<open>cancelled || ctx.Err() != nil\<close> after the conversion. The value is the error
  returned, or the output left on the disc (\<open>None\<close> after a cancelled run, which
  removes it).
\<close>

definition burnImage ::
  "nat \<Rightarrow> env \<Rightarrow> bool \<Rightarrow> bool \<Rightarrow> string \<Rightarrow> rat \<Rightarrow> rat \<Rightarrow> rat \<Rightarrow> bool \<Rightarrow> string
    \<Rightarrow> (error + byte list option) option"
where
  "burnImage fuel e load_ok interrupted dt t d rr mix preset =
    (case burnImage_params load_ok dt t d rr preset of
       Inl x \<Rightarrow> Some (Inl x)
     | Inr (dt', t', d', rr') \<Rightarrow>
         (case Convert fuel (e\<lparr>progressCallback := True\<rparr>) (NewConverter t' d' rr' mix dt') of
            None \<Rightarrow> None
          | Some (Inl x) \<Rightarrow> if interrupted then Some (Inr None) else Some (Inl x)
          | Some (Inr (k, l, s)) \<Rightarrow> Some (Inr (Some (written (out s))))))"

subsection \<open>Observations and invariants used in the statements\<close>

text \<open>
  The bytes the interleaver has passed on so far, in order: those written to the file
  and those waiting in the sector buffer.
\<close>

definition emitted :: "Converter \<times> outfile \<Rightarrow> byte list" where
  "emitted s = written (snd s) @ take (nat (conv_c (fst s))) (buffer (fst s))"

text \<open>The bounds that the array types and the cursors of a \<open>Converter\<close> obey.\<close>

definition conv_inv :: "Converter \<Rightarrow> bool" where
  "conv_inv cv \<longleftrightarrow>
     length (intseq cv) = 2688 \<and> length (buffer cv) = 2352 \<and>
     0 \<le> conv_c cv \<and> conv_c cv < 2352 \<and>
     0 \<le> pinf cv \<and> pinf cv \<le> 23 \<and> 0 \<le> nh cv \<and> nh cv \<le> 111"

definition params :: "Converter \<Rightarrow> rat \<times> rat \<times> rat \<times> bool \<times> string" where
  "params cv = (tr0 cv, dtr cv, r0 cv, mixColors cv, discType cv)"

text \<open>
  The room left for the bytes still to be passed on: every byte given to \<open>bw\<close>
  consumes one unit of it.
\<close>

definition budget :: "Converter \<times> outfile \<Rightarrow> int" where
  "budget s = int (room (snd s)) - conv_c (fst s)"

text \<open>The converter after the assignments of \<open>ad\<close>, before the frame is passed on.\<close>

definition ad_store :: "byte \<Rightarrow> Converter \<Rightarrow> Converter" where
  "ad_store b cv =
    cv\<lparr>intseq := (intseq cv)[nat ((nh cv * 24 + delays ! nat (pinf cv)) mod 2688) := b],
       pinf := (if pinf cv = 23 then 0 else pinf cv + 1),
       nh := (if pinf cv = 23 then (nh cv + 1) mod 112 else nh cv)\<rparr>"

text \<open>
  The converters reachable in a run: a run starts from \<open>NewConverter\<close> and changes
  its converter through \<open>ad\<close> only.
\<close>

inductive reachable :: "Converter \<Rightarrow> bool" where
  init: "reachable (NewConverter t d rr mix dt)"
| step: "reachable cv \<Longrightarrow> ad b (cv, f) = Inr (cv', f') \<Longrightarrow> reachable cv'"


text \<open>
  An environment for concrete runs: an image of one gray value \<open>g\<close>, a device with
  \<open>rm\<close> free bytes, a cancel callback \<open>cancel\<close> and the moments \<open>wk\<close> at which a
  worker finds the context done.
\<close>

definition flat_env :: "byte \<Rightarrow> (nat \<Rightarrow> bool) option \<Rightarrow> (nat \<Rightarrow> int \<Rightarrow> bool) \<Rightarrow> nat \<Rightarrow> env" where
  "flat_env g cancel wk rm =
    \<lparr>imgWidth = 3000, imgHeight = 3000, gray_at = (\<lambda>cx cy ri itr i. g), rand_Intn = (\<lambda>k i. 0),
     cancelCallback = cancel, ctx_Done = (\<lambda>k. False), progressCallback = True,
     create_ok = True, disk_room = rm,
     ctx_Done_send = (\<lambda>k. False), ctx_Done_worker = wk, ctx_Done_result = (\<lambda>k. False)\<rparr>"


text \<open>
  The room left for the symbols still to be fed: every byte given to \<open>ad\<close> consumes
  one unit of it.
\<close>

definition slack :: "run \<Rightarrow> int" where
  "slack s = budget (conv s, out s) - pinf (conv s)"

text \<open>
  The symbols one track hands to the interleaver, as a function of the sample phase
  \<open>zf\<close> at its start: the bytes \<open>palette[cl]\<close> of lines 152 to 174, in the order of
  the samples.
\<close>

fun track_symbols ::
  "env \<Rightarrow> bool \<Rightarrow> nat \<Rightarrow> rat \<Rightarrow> rat \<Rightarrow> rat \<Rightarrow> int \<Rightarrow> int \<Rightarrow> nat list \<Rightarrow> int \<Rightarrow> byte list"
where
  "track_symbols e mix k cx cy ri itr zs [] zf = []"
| "track_symbols e mix k cx cy ri itr zs (i # is) zf =
    palette ! unat (quantize mix (rand_Intn e k (int i)) zs zf (gray_at e cx cy ri itr (int i)))
      # track_symbols e mix k cx cy ri itr zs is (if zf + 1 \<ge> 5 then 0 else zf + 1)"

text \<open>The sample phase after a track of \<open>n\<close> samples that starts with phase \<open>zf\<close>.\<close>

fun phase_after :: "nat \<Rightarrow> int \<Rightarrow> int" where
  "phase_after 0 zf = zf"
| "phase_after (Suc n) zf = phase_after n (if zf + 1 \<ge> 5 then 0 else zf + 1)"

text \<open>
  The first lines of \<open>Convert\<close> by name: the symbol budget of the disc type, the
  radius step \<open>dr\<close>, and the locals and the state with which the loop starts.
\<close>

definition totalSize_of :: "Converter \<Rightarrow> int" where
  "totalSize_of cv = (if discType cv = ''dvd'' then DVDTotalSize else CDTotalSize)"

definition radius_step :: "Converter \<Rightarrow> rat" where
  "radius_step cv = dtr cv * r0 cv / tr0 cv"

definition Convert_init :: "env \<Rightarrow> Converter \<Rightarrow> locals \<times> run" where
  "Convert_init e cv =
    ((tr0 cv, r0 cv, 0, 0, 0),
     \<lparr>conv = cv, out = \<lparr>written = [], room = disk_room e\<rparr>, fed = [], reported = []\<rparr>)"

text \<open>
  The locals and the state of a run at the head of the loop over the tracks, after
  \<open>n\<close> iterations: \<open>None\<close> when the run ends or fails before.
\<close>

fun Convert_steps :: "nat \<Rightarrow> env \<Rightarrow> int \<Rightarrow> rat \<Rightarrow> locals \<times> run \<Rightarrow> (locals \<times> run) option" where
  "Convert_steps 0 e T dr st = Some st"
| "Convert_steps (Suc n) e T dr st =
    (case Convert_steps n e T dr st of
       None \<Rightarrow> None
     | Some st' \<Rightarrow>
         (let ((tr, r, c, zs, zf), s) = st' in
          if c < of_int T - tr then
            (case Convert_body e T dr n st' of Inl x \<Rightarrow> None | Inr st'' \<Rightarrow> Some st'')
          else None))"

definition Convert_at :: "nat \<Rightarrow> env \<Rightarrow> Converter \<Rightarrow> (locals \<times> run) option" where
  "Convert_at n e cv = Convert_steps n e (totalSize_of cv) (radius_step cv) (Convert_init e cv)"

text \<open>The locals after \<open>n\<close> tracks, in closed form.\<close>

definition tr_at :: "Converter \<Rightarrow> nat \<Rightarrow> rat" where
  "tr_at cv n = tr0 cv + of_nat n * dtr cv"

definition r_at :: "Converter \<Rightarrow> nat \<Rightarrow> rat" where
  "r_at cv n = r0 cv + of_nat n * radius_step cv"

definition c_at :: "Converter \<Rightarrow> nat \<Rightarrow> rat" where
  "c_at cv n = of_nat n * tr0 cv + dtr cv * (of_nat n * (of_nat n - 1) / 2)"

text \<open>The sample phase with which the sequential encoder starts track \<open>n\<close>.\<close>

fun zf_at :: "Converter \<Rightarrow> nat \<Rightarrow> int" where
  "zf_at cv 0 = 0"
| "zf_at cv (Suc n) = phase_after (nat (go_int (tr_at cv n))) (zf_at cv n)"

text \<open>
  The symbols of track \<open>k\<close> when its sample phase starts at \<open>zf\<close>, with the locals of
  track \<open>k\<close> in closed form; those of the sequential encoder start at \<open>zf_at cv k\<close>.
\<close>

definition symbols_of_track :: "env \<Rightarrow> Converter \<Rightarrow> nat \<Rightarrow> int \<Rightarrow> byte list" where
  "symbols_of_track e cv k zf =
    track_symbols e (mixColors cv) k (of_int (imgWidth e) / 2) (of_int (imgHeight e) / 2)
      (1500 * r_at cv k / (115 / 2)) (go_int (tr_at cv k)) (int (k mod 17))
      [0..<nat (go_int (tr_at cv k))] zf"

definition seq_track :: "env \<Rightarrow> Converter \<Rightarrow> nat \<Rightarrow> byte list" where
  "seq_track e cv k = symbols_of_track e cv k (zf_at cv k)"

section \<open>Properties\<close>

subsection \<open>The delay table, \<open>bw\<close> and \<open>ad\<close>\<close>

lemma delays_eq:
  "delays = [-72, -143, -256, -327, -440, -511, -646, -717, -830, -901, -1014, -1085,
             -1556, -1627, -1740, -1811, -1924, -1995, -2130, -2201, -2314, -2385, -2498, -2569]"
  by (simp add: delays_def D_def)

lemma length_delays: "length delays = 24"
  by (simp add: delays_eq)

lemma delays_bounds: "i < 24 \<Longrightarrow> - 2569 \<le> delays ! i \<and> delays ! i \<le> - 72"
proof -
  have "\<forall>d \<in> set delays. - 2569 \<le> d \<and> d \<le> - 72"
    by (simp add: delays_eq)
  moreover assume "i < 24"
  ultimately show ?thesis
    using nth_mem[of i delays] by (simp add: length_delays)
qed

lemma NewConverter_inv: "conv_inv (NewConverter t d rr mix dt)"
  by (simp add: conv_inv_def NewConverter_def D_def SectorSize_def)

lemma bw_unfold:
  assumes "conv_inv cv"
  shows "bw b (cv, f) =
    (if conv_c cv < 2351
     then Inr (cv\<lparr>buffer := (buffer cv)[nat (conv_c cv) := b], conv_c := conv_c cv + 1\<rparr>, f)
     else if 2352 \<le> room f
     then Inr (cv\<lparr>buffer := (buffer cv)[nat (conv_c cv) := b], conv_c := 0\<rparr>,
               f\<lparr>written := written f @ (buffer cv)[nat (conv_c cv) := b], room := room f - 2352\<rparr>)
     else Inl WriteFailed)"
  using assms by (simp add: bw_def conv_inv_def SectorSize_def file_Write_def Let_def)

lemma bw_emitted:
  assumes "conv_inv cv" and "bw b (cv, f) = Inr (cv', f')"
  shows "emitted (cv', f') = emitted (cv, f) @ [b]"
proof (cases "conv_c cv < 2351")
  case True
  with assms have "cv' = cv\<lparr>buffer := (buffer cv)[nat (conv_c cv) := b], conv_c := conv_c cv + 1\<rparr>" "f' = f"
    by (simp_all add: bw_unfold)
  moreover have "nat (conv_c cv + 1) = Suc (nat (conv_c cv))"
    using assms(1) by (simp add: conv_inv_def nat_add_distrib)
  moreover have "nat (conv_c cv) < length (buffer cv)"
    using assms(1) by (simp add: conv_inv_def nat_less_iff)
  ultimately show ?thesis
    by (simp add: emitted_def take_Suc_conv_app_nth)
next
  case False
  with assms(1) have c: "conv_c cv = 2351" by (simp add: conv_inv_def)
  from assms False have "2352 \<le> room f"
    by (simp add: bw_unfold split: if_splits)
  with assms False have
    *: "cv' = cv\<lparr>buffer := (buffer cv)[nat (conv_c cv) := b], conv_c := 0\<rparr>"
       "f' = f\<lparr>written := written f @ (buffer cv)[nat (conv_c cv) := b], room := room f - 2352\<rparr>"
    by (simp_all add: bw_unfold)
  have len: "length (buffer cv) = 2352" using assms(1) by (simp add: conv_inv_def)
  have "(buffer cv)[2351 := b] = take 2351 (buffer cv) @ [b]"
    using len by (simp add: upd_conv_take_nth_drop)
  then show ?thesis
    using * c by (simp add: emitted_def)
qed

lemma bw_frame:
  assumes "conv_inv cv" and "bw b (cv, f) = Inr (cv', f')"
  shows "conv_inv cv' \<and> intseq cv' = intseq cv \<and> nh cv' = nh cv \<and> pinf cv' = pinf cv
      \<and> params cv' = params cv"
  using assms by (auto simp add: bw_unfold conv_inv_def params_def split: if_splits)

lemma bw_error:
  assumes "conv_inv cv"
  shows "bw b (cv, f) \<noteq> Inl IndexOutOfRange"
  using assms by (simp add: bw_unfold)

lemma mod_neg_window:
  fixes x :: int
  assumes "- 2688 \<le> x" and "x < 0"
  shows "x mod 2688 = x + 2688"
proof -
  have "(x + 2688) mod 2688 = x + 2688"
    using assms by (intro mod_pos_pos_trivial) simp_all
  then show ?thesis by simp
qed

lemma n2m_read:
  assumes "conv_inv cv" and "i < 24"
  shows "n2m cv (int i) = nh cv * 24 + int i" and "0 \<le> n2m cv (int i)" and "n2m cv (int i) < 2688"
  using assms by (simp_all add: n2m_def conv_inv_def Let_def)

lemma n2m_write:
  assumes "conv_inv cv"
  shows "n2m cv (delays ! nat (pinf cv)) = (nh cv * 24 + delays ! nat (pinf cv)) mod 2688"
    and "0 \<le> n2m cv (delays ! nat (pinf cv))" and "n2m cv (delays ! nat (pinf cv)) < 2688"
proof -
  have "nat (pinf cv) < 24" using assms by (simp add: conv_inv_def nat_less_iff)
  from delays_bounds[OF this] assms
  have b: "- 2569 \<le> nh cv * 24 + delays ! nat (pinf cv)" "nh cv * 24 + delays ! nat (pinf cv) < 2688"
    by (simp_all add: conv_inv_def)
  show "n2m cv (delays ! nat (pinf cv)) = (nh cv * 24 + delays ! nat (pinf cv)) mod 2688"
  proof (cases "nh cv * 24 + delays ! nat (pinf cv) < 0")
    case True
    then have "(nh cv * 24 + delays ! nat (pinf cv)) mod 2688 = nh cv * 24 + delays ! nat (pinf cv) + 2688"
      using b by (intro mod_neg_window) simp_all
    then show ?thesis using True b by (simp add: n2m_def Let_def)
  next
    case False
    then show ?thesis using b by (simp add: n2m_def Let_def)
  qed
  then show "0 \<le> n2m cv (delays ! nat (pinf cv))" "n2m cv (delays ! nat (pinf cv)) < 2688"
    by simp_all
qed

lemma ad_emit_props:
  assumes "conv_inv cv" and "\<forall>i \<in> set js. i < 24" and "ad_emit js (cv, f) = Inr (cv', f')"
  shows "conv_inv cv' \<and> intseq cv' = intseq cv \<and> nh cv' = nh cv \<and> pinf cv' = pinf cv
      \<and> params cv' = params cv
      \<and> emitted (cv', f') = emitted (cv, f) @ map (\<lambda>i. intseq cv ! nat (nh cv * 24 + int i)) js"
  using assms
proof (induction js arbitrary: cv f)
  case Nil
  then show ?case by simp
next
  case (Cons i js)
  then have i: "i < 24" by simp
  note n = n2m_read[OF Cons.prems(1) i]
  have len: "length (intseq cv) = 2688" using Cons.prems(1) by (simp add: conv_inv_def)
  from Cons.prems(3) n len obtain cv1 f1 where
    1: "bw (intseq cv ! nat (nh cv * 24 + int i)) (cv, f) = Inr (cv1, f1)"
    and 2: "ad_emit js (cv1, f1) = Inr (cv', f')"
    by (auto simp add: Let_def split: sum.splits)
  note fr = bw_frame[OF Cons.prems(1) 1] and em = bw_emitted[OF Cons.prems(1) 1]
  from Cons.IH[of cv1 f1] fr 2 Cons.prems(2)
  have "conv_inv cv' \<and> intseq cv' = intseq cv1 \<and> nh cv' = nh cv1 \<and> pinf cv' = pinf cv1
      \<and> params cv' = params cv1
      \<and> emitted (cv', f') = emitted (cv1, f1) @ map (\<lambda>i. intseq cv1 ! nat (nh cv1 * 24 + int i)) js"
    by simp
  with fr em show ?case by simp
qed

lemma ad_emit_error:
  assumes "conv_inv cv" and "\<forall>i \<in> set js. i < 24"
  shows "ad_emit js (cv, f) \<noteq> Inl IndexOutOfRange"
  using assms
proof (induction js arbitrary: cv f)
  case Nil
  then show ?case by simp
next
  case (Cons i js)
  then have i: "i < 24" by simp
  note n = n2m_read[OF Cons.prems(1) i]
  have len: "length (intseq cv) = 2688" using Cons.prems(1) by (simp add: conv_inv_def)
  show ?case
  proof (cases "bw (intseq cv ! nat (nh cv * 24 + int i)) (cv, f)")
    case (Inl e)
    with bw_error[OF Cons.prems(1)] n len show ?thesis
      by (auto simp add: Let_def)
  next
    case (Inr s1)
    obtain cv1 f1 where s1: "s1 = (cv1, f1)" by (cases s1)
    from bw_frame[OF Cons.prems(1) Inr[unfolded s1]] have "conv_inv cv1" by simp
    from Cons.IH[OF this] Cons.prems(2) have "ad_emit js (cv1, f1) \<noteq> Inl IndexOutOfRange" by simp
    with Inr s1 n len show ?thesis by (simp add: Let_def)
  qed
qed

lemma bw_budget:
  assumes "conv_inv cv" and "bw b (cv, f) = Inr (cv', f')"
  shows "budget (cv', f') = budget (cv, f) - 1"
  using assms by (auto simp add: bw_unfold conv_inv_def budget_def split: if_splits)

lemma bw_succeeds:
  assumes "conv_inv cv" and "1 \<le> budget (cv, f)"
  shows "\<exists>s'. bw b (cv, f) = Inr s'"
  using assms by (auto simp add: bw_unfold conv_inv_def budget_def)

lemma ad_emit_budget:
  assumes "conv_inv cv" and "\<forall>i \<in> set js. i < 24" and "ad_emit js (cv, f) = Inr (cv', f')"
  shows "budget (cv', f') = budget (cv, f) - int (length js)"
  using assms
proof (induction js arbitrary: cv f)
  case Nil
  then show ?case by simp
next
  case (Cons i js)
  then have i: "i < 24" by simp
  note n = n2m_read[OF Cons.prems(1) i]
  have len: "length (intseq cv) = 2688" using Cons.prems(1) by (simp add: conv_inv_def)
  from Cons.prems(3) n len obtain cv1 f1 where
    1: "bw (intseq cv ! nat (nh cv * 24 + int i)) (cv, f) = Inr (cv1, f1)"
    and 2: "ad_emit js (cv1, f1) = Inr (cv', f')"
    by (auto simp add: Let_def split: sum.splits)
  from bw_frame[OF Cons.prems(1) 1] have "conv_inv cv1" by simp
  from Cons.IH[OF this _ 2] Cons.prems(2) bw_budget[OF Cons.prems(1) 1]
  show ?case by simp
qed

lemma ad_emit_succeeds:
  assumes "conv_inv cv" and "\<forall>i \<in> set js. i < 24" and "int (length js) \<le> budget (cv, f)"
  shows "\<exists>s'. ad_emit js (cv, f) = Inr s'"
  using assms
proof (induction js arbitrary: cv f)
  case Nil
  then show ?case by simp
next
  case (Cons i js)
  then have i: "i < 24" by simp
  note n = n2m_read[OF Cons.prems(1) i]
  have len: "length (intseq cv) = 2688" using Cons.prems(1) by (simp add: conv_inv_def)
  from bw_succeeds[OF Cons.prems(1), of f] Cons.prems(3) obtain cv1 f1 where
    1: "bw (intseq cv ! nat (nh cv * 24 + int i)) (cv, f) = Inr (cv1, f1)"
    by fastforce
  from bw_frame[OF Cons.prems(1) 1] have inv1: "conv_inv cv1" by simp
  from bw_budget[OF Cons.prems(1) 1] Cons.prems(3) have "int (length js) \<le> budget (cv1, f1)"
    by simp
  from Cons.IH[OF inv1 _ this] Cons.prems(2) obtain s' where "ad_emit js (cv1, f1) = Inr s'"
    by auto
  with 1 n len show ?case by (simp add: Let_def)
qed

lemma ad_store_inv: "conv_inv cv \<Longrightarrow> conv_inv (ad_store b cv)"
  by (auto simp add: conv_inv_def ad_store_def)

lemma ad_unfold:
  assumes "conv_inv cv"
  shows "ad b (cv, f) =
    (if pinf cv = 23 then ad_emit [0..<24] (ad_store b cv, f) else Inr (ad_store b cv, f))"
proof -
  note w = n2m_write[OF assms]
  have len: "length (intseq cv) = 2688" "0 \<le> pinf cv" "pinf cv \<le> 23" "0 \<le> nh cv" "nh cv \<le> 111"
    using assms by (simp_all add: conv_inv_def)
  have nh: "nh cv = 111 \<Longrightarrow> (nh cv + 1) mod 112 = 0" "nh cv \<noteq> 111 \<Longrightarrow> (nh cv + 1) mod 112 = nh cv + 1"
    using len by simp_all
  show ?thesis
  proof (cases "pinf cv = 23")
    case True
    then show ?thesis
      using w len nh
      by (cases "nh cv = 111") (simp_all add: ad_def Let_def length_delays ad_store_def del: ad_emit.simps upt.simps)
  next
    case False
    then show ?thesis
      using w len by (simp add: ad_def Let_def length_delays ad_store_def del: ad_emit.simps upt.simps)
  qed
qed

lemma ad_props:
  assumes "conv_inv cv" and "ad b (cv, f) = Inr (cv', f')"
  shows "conv_inv cv' \<and> intseq cv' = intseq (ad_store b cv) \<and> nh cv' = nh (ad_store b cv) \<and>
    pinf cv' = pinf (ad_store b cv) \<and> params cv' = params cv \<and>
    emitted (cv', f') = emitted (cv, f) @
          (if pinf cv = 23 then map (\<lambda>i. intseq cv' ! nat (nh cv' * 24 + int i)) [0..<24] else []) \<and>
    budget (cv', f') = budget (cv, f) - (if pinf cv = 23 then 24 else 0)"
proof -
  have inv: "conv_inv (ad_store b cv)" by (rule ad_store_inv[OF assms(1)])
  have all: "\<forall>i \<in> set [0..<24]. i < (24::nat)" by simp
  have base: "params (ad_store b cv) = params cv" "emitted (ad_store b cv, f) = emitted (cv, f)"
     "budget (ad_store b cv, f) = budget (cv, f)"
    by (simp_all add: params_def ad_store_def emitted_def budget_def)
  show ?thesis
  proof (cases "pinf cv = 23")
    case True
    with assms have e: "ad_emit [0..<24] (ad_store b cv, f) = Inr (cv', f')"
      by (simp add: ad_unfold del: ad_emit.simps upt.simps)
    from ad_emit_props[OF inv all e] ad_emit_budget[OF inv all e] base True
    show ?thesis
      by (simp del: upt.simps)
  next
    case False
    with assms have "cv' = ad_store b cv" "f' = f"
      by (simp_all add: ad_unfold del: ad_emit.simps upt.simps)
    with inv base False
    show ?thesis
      by simp
  qed
qed

lemma ad_error:
  assumes "conv_inv cv"
  shows "ad b (cv, f) \<noteq> Inl IndexOutOfRange"
  using ad_emit_error[OF ad_store_inv[OF assms], where f = f and js = "[0..<24]"]
  by (simp add: ad_unfold[OF assms] del: ad_emit.simps upt.simps)

lemma ad_succeeds:
  assumes "conv_inv cv" and "24 \<le> budget (cv, f)"
  shows "\<exists>s'. ad b (cv, f) = Inr s'"
proof -
  have "budget (ad_store b cv, f) = budget (cv, f)"
    by (simp add: ad_store_def budget_def)
  with ad_emit_succeeds[OF ad_store_inv[OF assms(1)], where f = f and js = "[0..<24]"] assms(2)
  show ?thesis
    by (simp add: ad_unfold[OF assms(1)] del: ad_emit.simps upt.simps)
qed

lemma reachable_inv: "reachable cv \<Longrightarrow> conv_inv cv"
proof (induction rule: reachable.induct)
  case (init t d rr mix dt)
  show ?case by (rule NewConverter_inv)
next
  case (step cv b f cv' f')
  from ad_props[OF step.IH step.hyps(2)] show ?case by simp
qed

lemma c1_le: "unat ((g::byte) div 85) \<le> 3"
proof -
  have "unat g < 256" using unsigned_less[of g, where 'a = nat] by simp
  then have "unat g div 85 \<le> 3" by simp
  then show ?thesis by (simp add: unat_div)
qed

lemma c2_val: "unat ((g::byte) div 85 + 1) = unat g div 85 + 1"
proof -
  have "unat (g div 85) \<le> 3" by (rule c1_le)
  then show ?thesis by (simp add: unat_div unat_word_ariths)
qed

lemma c2_gt: "((g::byte) div 85 + 1 > 3) = (unat g div 85 + 1 > 3)"
  by (simp add: word_less_nat_alt c2_val)

lemma quantize_index:
  "unat (quantize False rnd zs zf g) =
     (if int (unat g mod 85) > zs * 5 + zf \<or> unat g mod 85 = 84
      then min (unat g div 85 + 1) 3 else unat g div 85)"
  by (auto simp add: quantize_def Let_def c2_gt c2_val unat_div uint_mod unat_mod uint_nat min_def)

lemma quantize_le: "unat (quantize mix rnd zs zf g) \<le> 3"
  using c1_le[of g] by (auto simp add: quantize_def Let_def c2_gt c2_val unat_div)

lemma palette_at_quantize:
  "palette_at (quantize mix rnd zs zf g) = Inr (palette ! unat (quantize mix rnd zs zf g))"
  using quantize_le[of mix rnd zs zf g] by (simp add: palette_at_def palette_def)

text \<open>
  Claim C5. For every gray value (a byte, so in \<open>[0, 255]\<close>) and all phases \<open>zs\<close>,
  \<open>zf\<close>: \<open>low = gray div 85\<close> lies in \<open>[0, 3]\<close>; in the ordered mode the index chosen
  is \<open>high = min (low + 1) 3\<close> if and only if \<open>gray mod 85 > zs * 5 + zf\<close> or
  \<open>gray mod 85 = 84\<close>, and \<open>low\<close> otherwise; the byte emitted is the palette byte of
  that index; and in either mode the index chosen lies in \<open>[0, 3]\<close>.
\<close>

theorem quantize_ordered_dither:
  "unat g div 85 \<le> 3
   \<and> unat (quantize False rnd zs zf g) =
       (if int (unat g mod 85) > zs * 5 + zf \<or> unat g mod 85 = 84
        then min (unat g div 85 + 1) 3 else unat g div 85)
   \<and> palette_at (quantize False rnd zs zf g) =
       Inr (palette ! (if int (unat g mod 85) > zs * 5 + zf \<or> unat g mod 85 = 84
                       then min (unat g div 85 + 1) 3 else unat g div 85))
   \<and> unat (quantize mix rnd zs zf g) \<le> 3"
proof -
  have "unat g div 85 \<le> 3" using c1_le[of g] by (simp add: unat_div)
  moreover note quantize_index[of rnd zs zf g] quantize_le[of mix rnd zs zf g]
    palette_at_quantize[of False rnd zs zf g]
  ultimately show ?thesis by simp
qed

text \<open>
  Claim C7. In every converter reachable in a run, \<open>pinf\<close> lies in \<open>[0, 23]\<close> and
  \<open>nh\<close> in \<open>[0, 111]\<close>; the index \<open>n2m\<close> computes for the write through
  \<open>delays[pinf]\<close>, and for each of the 24 reads, is the index modulo 2688 and lies in
  \<open>[0, 2688)\<close>, the length of \<open>intseq\<close>; and \<open>ad\<close> never fails by an access out of
  range.
\<close>

theorem interleaver_indices_in_range:
  assumes "reachable cv"
  shows "0 \<le> pinf cv \<and> pinf cv \<le> 23 \<and> 0 \<le> nh cv \<and> nh cv \<le> 111
    \<and> length (intseq cv) = 2688
    \<and> n2m cv (delays ! nat (pinf cv)) = (nh cv * 24 + delays ! nat (pinf cv)) mod 2688
    \<and> 0 \<le> n2m cv (delays ! nat (pinf cv)) \<and> n2m cv (delays ! nat (pinf cv)) < 2688
    \<and> (\<forall>i<24. n2m cv (int i) = (nh cv * 24 + int i) mod 2688
          \<and> 0 \<le> n2m cv (int i) \<and> n2m cv (int i) < 2688)
    \<and> (\<forall>b f. ad b (cv, f) \<noteq> Inl IndexOutOfRange)"
proof -
  have inv: "conv_inv cv" by (rule reachable_inv[OF assms])
  have rd: "n2m cv (int i) = (nh cv * 24 + int i) mod 2688 \<and> 0 \<le> n2m cv (int i) \<and> n2m cv (int i) < 2688"
    if "i < 24" for i
    using n2m_read[OF inv that] by simp
  from inv n2m_write[OF inv] rd ad_error[OF inv] show ?thesis
    by (simp add: conv_inv_def)
qed

theorem interleaver_indices_in_range_witness:
  "reachable (NewConverter 1000 0 (49 / 2) False ''cd'')
   \<and> nh (NewConverter 1000 0 (49 / 2) False ''cd'') \<le> 111
   \<and> n2m (NewConverter 1000 0 (49 / 2) False ''cd'') (int 23) = 2687
   \<and> ad 16 (NewConverter 1000 0 (49 / 2) False ''cd'', \<lparr>written = [], room = 0\<rparr>) \<noteq> Inl IndexOutOfRange"
proof -
  let ?cv = "NewConverter 1000 0 (49 / 2) False ''cd''"
  have r: "reachable ?cv" by (rule reachable.init)
  note t = interleaver_indices_in_range[OF r]
  have "(23::nat) < 24" by simp
  with t have 1: "n2m ?cv (int 23) = (nh ?cv * 24 + int 23) mod 2688"
    by blast
  have nh: "nh ?cv = 111" by (simp add: NewConverter_def D_def)
  from t have 2: "nh ?cv \<le> 111" by blast
  from t have 3: "ad 16 (?cv, \<lparr>written = [], room = 0\<rparr>) \<noteq> Inl IndexOutOfRange" by blast
  from 1 nh have "n2m ?cv (int 23) = 2687" by simp
  with r 2 3 show ?thesis by blast
qed

subsection \<open>The parallel pipeline\<close>












text \<open>
  Claim C2, on the code. Three jobs are generated before the cancel callback answers
  true; the worker of track \<open>1\<close> finds the context done and returns an error. The
  collector skips that result: \<open>ConvertParallel\<close> returns \<open>nil\<close>, the file holds
  track \<open>0\<close> alone and track \<open>2\<close> stays in the buffer. So no byte of an index from
  the failed one on is written, but the error does not reach the caller.
\<close>

theorem parallel_worker_error_dropped:
  "(case job_generator 5 (flat_env 6 (Some (\<lambda>k. 3 \<le> k)) (\<lambda>k i. k = 1 \<and> i = 1) 100)
           (NewConverter 2 1 1 False ''cd'') of
      Some (jobs, reps) \<Rightarrow>
        map (trackWorker (flat_env 6 (Some (\<lambda>k. 3 \<le> k)) (\<lambda>k i. k = 1 \<and> i = 1) 100) False) jobs)
     = [Inr \<lparr>res_trackIndex = 0, res_data = [33, 33], res_err = None\<rparr>,
        Inr \<lparr>res_trackIndex = 1, res_data = [], res_err = Some ContextCancelled\<rparr>,
        Inr \<lparr>res_trackIndex = 2, res_data = [16, 16, 16, 16], res_err = None\<rparr>]
   \<and> ConvertParallel 5 (flat_env 6 (Some (\<lambda>k. 3 \<le> k)) (\<lambda>k i. k = 1 \<and> i = 1) 100)
        (NewConverter 2 1 1 False ''cd'') [0, 1, 2]
     = Some (Inr (None,
         \<lparr>trackBuffer = [(2, [16, 16, 16, 16])], nextTrackToWrite = 1,
          cfile = \<lparr>written = [33, 33], room = 98\<rparr>,
          wrote = [(0, [33, 33])]\<rparr>, [0, 0, 0]))"
  by code_simp

subsection \<open>The loops of the sequential encoder\<close>

lemma feed_props:
  assumes "conv_inv (conv s)" and "feed b s = Inr s'"
  shows "conv_inv (conv s') \<and> params (conv s') = params (conv s) \<and> fed s' = fed s @ [b]
     \<and> reported s' = reported s \<and> slack s' = slack s - 1"
proof -
  from assms(2) obtain cv f where a: "ad b (conv s, out s) = Inr (cv, f)"
    and s': "s' = s\<lparr>conv := cv, out := f, fed := fed s @ [b]\<rparr>"
    by (auto simp add: feed_def split: sum.splits)
  note p = ad_props[OF assms(1) a]
  from assms(1) have "0 \<le> pinf (conv s)" "pinf (conv s) \<le> 23" by (simp_all add: conv_inv_def)
  with p have "budget (cv, f) - pinf cv = budget (conv s, out s) - pinf (conv s) - 1"
    by (auto simp add: ad_store_def)
  with p s' show ?thesis by (simp add: slack_def)
qed

lemma feed_succeeds:
  assumes "conv_inv (conv s)" and "1 \<le> slack s"
  shows "\<exists>s'. feed b s = Inr s'"
proof (cases "pinf (conv s) = 23")
  case True
  with assms(2) have "24 \<le> budget (conv s, out s)" by (simp add: slack_def)
  from ad_succeeds[OF assms(1) this, of b] obtain cv f where "ad b (conv s, out s) = Inr (cv, f)"
    by force
  then show ?thesis by (simp add: feed_def)
next
  case False
  then show ?thesis by (simp add: feed_def ad_unfold[OF assms(1)])
qed

lemma feed_error:
  assumes "conv_inv (conv s)"
  shows "feed b s \<noteq> Inl IndexOutOfRange"
  using ad_error[OF assms, of b "out s"] by (auto simp add: feed_def split: sum.splits)

lemma feed_reachable:
  assumes "reachable (conv s)" and "feed b s = Inr s'"
  shows "reachable (conv s')"
proof -
  from assms(2) obtain cv f where a: "ad b (conv s, out s) = Inr (cv, f)"
    and s': "s' = s\<lparr>conv := cv, out := f, fed := fed s @ [b]\<rparr>"
    by (auto simp add: feed_def split: sum.splits)
  from reachable.step[OF assms(1) a] s' show ?thesis by simp
qed

lemma track_loop_props:
  assumes "conv_inv (conv s)"
    and "track_loop e mix k cx cy ri itr zs js (zf, s) = Inr (zf', s')"
  shows "conv_inv (conv s') \<and> params (conv s') = params (conv s)
     \<and> fed s' = fed s @ track_symbols e mix k cx cy ri itr zs js zf
     \<and> reported s' = reported s \<and> slack s' = slack s - int (length js)
     \<and> zf' = phase_after (length js) zf"
  using assms
proof (induction js arbitrary: zf s)
  case Nil
  then show ?case by simp
next
  case (Cons i js)
  let ?cl = "quantize mix (rand_Intn e k (int i)) zs zf (gray_at e cx cy ri itr (int i))"
  let ?b = "palette ! unat ?cl"
  have pa: "palette_at ?cl = Inr ?b" by (rule palette_at_quantize)
  with Cons.prems(2) obtain s1 where
    f: "feed ?b s = Inr s1"
    and rest: "track_loop e mix k cx cy ri itr zs js (if zf + 1 \<ge> 5 then 0 else zf + 1, s1) = Inr (zf', s')"
    by (auto simp add: Let_def split: sum.splits)
  note p1 = feed_props[OF Cons.prems(1) f]
  from p1 have "conv_inv (conv s1)" by simp
  from Cons.IH[OF this rest] p1 show ?case by simp
qed

lemma track_loop_succeeds:
  assumes "conv_inv (conv s)" and "int (length js) \<le> slack s"
  shows "\<exists>st'. track_loop e mix k cx cy ri itr zs js (zf, s) = Inr st'"
  using assms
proof (induction js arbitrary: zf s)
  case Nil
  then show ?case by simp
next
  case (Cons i js)
  let ?cl = "quantize mix (rand_Intn e k (int i)) zs zf (gray_at e cx cy ri itr (int i))"
  let ?b = "palette ! unat ?cl"
  have pa: "palette_at ?cl = Inr ?b" by (rule palette_at_quantize)
  from Cons.prems(2) have "1 \<le> slack s" by simp
  from feed_succeeds[OF Cons.prems(1) this] obtain s1 where f: "feed ?b s = Inr s1" by blast
  note p1 = feed_props[OF Cons.prems(1) f]
  with Cons.prems(2) have "conv_inv (conv s1)" "int (length js) \<le> slack s1" by simp_all
  from Cons.IH[OF this] pa f show ?case by (simp add: Let_def)
qed

lemma track_loop_reachable:
  assumes "reachable (conv s)"
    and "track_loop e mix k cx cy ri itr zs js (zf, s) = Inr (zf', s')"
  shows "reachable (conv s')"
  using assms
proof (induction js arbitrary: zf s)
  case Nil
  then show ?case by simp
next
  case (Cons i js)
  from Cons.prems(2) obtain b s1 where
    f: "feed b s = Inr s1"
    and rest: "track_loop e mix k cx cy ri itr zs js (if zf + 1 \<ge> 5 then 0 else zf + 1, s1) = Inr (zf', s')"
    by (auto simp add: Let_def split: sum.splits)
  from Cons.IH[OF feed_reachable[OF Cons.prems(1) f] rest] show ?case .
qed

lemma track_loop_error:
  assumes "conv_inv (conv s)"
  shows "track_loop e mix k cx cy ri itr zs js (zf, s) \<noteq> Inl IndexOutOfRange"
  using assms
proof (induction js arbitrary: zf s)
  case Nil
  then show ?case by simp
next
  case (Cons i js)
  let ?cl = "quantize mix (rand_Intn e k (int i)) zs zf (gray_at e cx cy ri itr (int i))"
  let ?b = "palette ! unat ?cl"
  have pa: "palette_at ?cl = Inr ?b" by (rule palette_at_quantize)
  show ?case
  proof (cases "feed ?b s")
    case (Inl x)
    with feed_error[OF Cons.prems, of ?b] pa show ?thesis by (simp add: Let_def)
  next
    case (Inr s1)
    from feed_props[OF Cons.prems Inr] have "conv_inv (conv s1)" by simp
    from Cons.IH[OF this] pa Inr show ?thesis by (simp add: Let_def)
  qed
qed

text \<open>The loop that fills the remaining samples never runs: \<open>ic\<close> is \<open>int(c)\<close>.\<close>

lemma pad_loop_dead: "pad_loop c (go_int c) s = Inr s"
  by simp

lemma Convert_body_unfold:
  "Convert_body e T dr k ((tr, r, c, zs, zf), s) =
    (if (case cancelCallback e of None \<Rightarrow> False | Some cb \<Rightarrow> cb k) then Inl ConversionCancelled
     else if ctx_Done e k then Inl ContextCancelled
     else
       case track_loop e (mixColors (conv s)) k (of_int (imgWidth e) / 2) (of_int (imgHeight e) / 2)
              (1500 * r / (115 / 2)) (go_int tr) zs [0..<nat (go_int tr)]
              (zf, if progressCallback e
                   then s\<lparr>reported := reported s @ [go_int (100 * c / of_int T)]\<rparr> else s) of
         Inl x \<Rightarrow> Inl x
       | Inr (zf', s') \<Rightarrow>
           Inr ((tr + dtr (conv s'), r + dr, c + tr, (if zs + 1 \<ge> 17 then 0 else zs + 1), zf'), s'))"
  by (auto simp add: Convert_body_def Let_def pad_loop_dead split: sum.splits
      simp del: pad_loop.simps track_loop.simps upt.simps)

subsection \<open>Runs of the sequential encoder, track by track\<close>

lemma length_track_symbols [simp]:
  "length (track_symbols e mix k cx cy ri itr zs js zf) = length js"
  by (induction js arbitrary: zf) simp_all

lemma Convert_loop_steps:
  assumes "Convert_steps n e T dr st0 = Some st"
  shows "Convert_loop (n + m) e T dr 0 st0 = Convert_loop m e T dr n st"
  using assms
proof (induction n arbitrary: m st)
  case 0
  then show ?case by simp
next
  case (Suc n)
  from Suc.prems obtain st' where
    n: "Convert_steps n e T dr st0 = Some st'"
    and step: "(let ((tr, r, c, zs, zf), s) = st' in
          if c < of_int T - tr then
            (case Convert_body e T dr n st' of Inl x \<Rightarrow> None | Inr st'' \<Rightarrow> Some st'')
          else None) = Some st"
    by (auto split: option.splits)
  obtain tr r c zs zf s where st': "st' = ((tr, r, c, zs, zf), s)" by (cases st') auto
  from step st' have cond: "c < of_int T - tr" and body: "Convert_body e T dr n st' = Inr st"
    by (auto split: if_splits sum.splits)
  have "Convert_loop (Suc n + m) e T dr 0 st0 = Convert_loop (n + Suc m) e T dr 0 st0"
    by simp
  also have "\<dots> = Convert_loop (Suc m) e T dr n st'"
    by (rule Suc.IH[OF n])
  also have "\<dots> = Convert_loop m e T dr (Suc n) st"
    using cond body st' by simp
  finally show ?case .
qed

lemma Convert_unfold:
  "Convert fuel e cv =
    (if \<not> create_ok e then Some (Inl CreateFailed)
     else
       case Convert_loop fuel e (totalSize_of cv) (radius_step cv) 0 (Convert_init e cv) of
         None \<Rightarrow> None
       | Some (Inl x) \<Rightarrow> Some (Inl x)
       | Some (Inr (k, l, s)) \<Rightarrow>
           if conv_c (conv s) > 0 then
             if conv_c (conv s) \<le> int (length (buffer (conv s))) then
               (case file_Write (take (nat (conv_c (conv s))) (buffer (conv s))) (out s) of
                  Inl x \<Rightarrow> Some (Inl x)
                | Inr f' \<Rightarrow> Some (Inr (k, l, s\<lparr>out := f'\<rparr>)))
             else Some (Inl IndexOutOfRange)
           else Some (Inr (k, l, s)))"
  by (simp add: Convert_def totalSize_of_def radius_step_def Convert_init_def Let_def)

text \<open>What holds of a run after \<open>n\<close> tracks.\<close>

lemma Convert_at_props:
  assumes "conv_inv cv" and "Convert_at n e cv = Some ((tr, r, c, zs, zf), s)"
  shows "tr = tr_at cv n \<and> r = r_at cv n \<and> c = c_at cv n \<and> zs = int (n mod 17)
    \<and> zf = zf_at cv n \<and> fed s = concat (map (seq_track e cv) [0..<n])
    \<and> conv_inv (conv s) \<and> params (conv s) = params cv
    \<and> slack s = int (disk_room e) - conv_c cv - pinf cv - int (length (fed s))
    \<and> reported s = (if progressCallback e
         then map (\<lambda>i. go_int (100 * c_at cv i / of_int (totalSize_of cv))) [0..<n] else [])"
  using assms(2)
proof (induction n arbitrary: tr r c zs zf s)
  case 0
  with assms(1) show ?case
    by (auto simp add: Convert_at_def Convert_init_def tr_at_def r_at_def c_at_def slack_def budget_def)
next
  case (Suc n)
  let ?T = "totalSize_of cv"
  from Suc.prems obtain st' where
    n: "Convert_at n e cv = Some st'"
    and step: "(let ((tr, r, c, zs, zf), s) = st' in
          if c < of_int ?T - tr then
            (case Convert_body e ?T (radius_step cv) n st' of Inl x \<Rightarrow> None | Inr st'' \<Rightarrow> Some st'')
          else None) = Some ((tr, r, c, zs, zf), s)"
    by (auto simp add: Convert_at_def split: option.splits)
  obtain tr1 r1 c1 zs1 zf1 s1 where st': "st' = ((tr1, r1, c1, zs1, zf1), s1)" by (cases st') auto
  note IH = Suc.IH[OF n[unfolded st']]
  from step st' have body: "Convert_body e ?T (radius_step cv) n ((tr1, r1, c1, zs1, zf1), s1)
       = Inr ((tr, r, c, zs, zf), s)"
    by (auto split: if_splits sum.splits)
  let ?s1 = "if progressCallback e
             then s1\<lparr>reported := reported s1 @ [go_int (100 * c1 / of_int ?T)]\<rparr> else s1"
  from body have
    tl: "track_loop e (mixColors (conv s1)) n (of_int (imgWidth e) / 2) (of_int (imgHeight e) / 2)
              (1500 * r1 / (115 / 2)) (go_int tr1) zs1 [0..<nat (go_int tr1)] (zf1, ?s1) = Inr (zf, s)"
    and loc: "tr = tr1 + dtr (conv s)" "r = r1 + radius_step cv" "c = c1 + tr1"
       "zs = (if zs1 + 1 \<ge> 17 then 0 else zs1 + 1)"
    unfolding Convert_body_unfold by (auto split: if_splits sum.splits)
  have inv1: "conv_inv (conv ?s1)" using IH by simp
  note tp = track_loop_props[OF inv1 tl]
  from tp have tp': "zf = phase_after (nat (go_int tr1)) zf1" by simp
  have par: "params (conv s) = params cv" using tp IH by simp
  then have d: "dtr (conv s) = dtr cv" by (simp add: params_def)
  have a: "tr = tr_at cv (Suc n)" using loc d IH by (simp add: tr_at_def algebra_simps)
  have b: "r = r_at cv (Suc n)" using loc IH by (simp add: r_at_def algebra_simps)
  have c: "c = c_at cv (Suc n)" using loc IH by (simp add: c_at_def tr_at_def field_simps)
  have z: "zs = int (Suc n mod 17)" using loc IH by (auto simp add: mod_Suc)
  have mix: "mixColors (conv s1) = mixColors cv" using IH by (simp add: params_def)
  have zf: "zf = zf_at cv (Suc n)" using tp' IH by simp
  have "track_symbols e (mixColors (conv s1)) n (of_int (imgWidth e) / 2) (of_int (imgHeight e) / 2)
              (1500 * r1 / (115 / 2)) (go_int tr1) zs1 [0..<nat (go_int tr1)] zf1 = seq_track e cv n"
    using IH mix by (simp add: seq_track_def symbols_of_track_def)
  with tp have "fed s = fed s1 @ seq_track e cv n" by simp
  with IH have fd: "fed s = concat (map (seq_track e cv) [0..<Suc n])"
    by simp
  have sl: "slack s = int (disk_room e) - conv_c cv - pinf cv - int (length (fed s))"
    using tp IH by (simp add: slack_def)
  have rp: "reported s = (if progressCallback e
         then map (\<lambda>i. go_int (100 * c_at cv i / of_int ?T)) [0..<Suc n] else [])"
    using tp IH by simp
  from a b c z zf fd tp par sl rp show ?case by simp
qed

lemma Convert_at_Suc:
  assumes "conv_inv cv" and "Convert_at n e cv = Some ((tr, r, c, zs, zf), s)"
    and "c < of_int (totalSize_of cv) - tr"
    and "\<not> (case cancelCallback e of None \<Rightarrow> False | Some cb \<Rightarrow> cb n)" and "\<not> ctx_Done e n"
    and "go_int tr \<le> slack s" and "0 \<le> slack s"
  shows "\<exists>st'. Convert_at (Suc n) e cv = Some st'"
proof -
  let ?T = "totalSize_of cv"
  let ?s1 = "if progressCallback e
             then s\<lparr>reported := reported s @ [go_int (100 * c / of_int ?T)]\<rparr> else s"
  note p = Convert_at_props[OF assms(1,2)]
  have inv1: "conv_inv (conv ?s1)" using p by simp
  have "int (length [0..<nat (go_int tr)]) \<le> slack ?s1"
    using assms(6,7) by (simp add: slack_def)
  from track_loop_succeeds[OF inv1 this] obtain zf' s' where
    "track_loop e (mixColors (conv s)) n (of_int (imgWidth e) / 2) (of_int (imgHeight e) / 2)
              (1500 * r / (115 / 2)) (go_int tr) zs [0..<nat (go_int tr)] (zf, ?s1) = Inr (zf', s')"
    by fastforce
  with assms(4,5) have "\<exists>st'. Convert_body e ?T (radius_step cv) n ((tr, r, c, zs, zf), s) = Inr st'"
    unfolding Convert_body_unfold by simp
  with assms(2,3) show ?thesis
    by (auto simp add: Convert_at_def)
qed

lemma Convert_at_None_mono:
  assumes "Convert_at n e cv = None"
  shows "Convert_at (n + m) e cv = None"
  using assms by (induction m) (simp_all add: Convert_at_def)

lemma Convert_at_Some_le:
  assumes "Convert_at n e cv = Some st" and "m \<le> n"
  shows "\<exists>st'. Convert_at m e cv = Some st'"
proof (cases "Convert_at m e cv")
  case None
  from Convert_at_None_mono[OF this, of "n - m"] assms show ?thesis by simp
next
  case (Some st')
  then show ?thesis by blast
qed

lemma Convert_loop_result:
  assumes "Convert_loop m e T dr j stj = Some (Inr (k, st))" and "Convert_steps j e T dr st0 = Some stj"
  shows "Convert_steps k e T dr st0 = Some st \<and> \<not> (fst (snd (snd (fst st))) < of_int T - fst (fst st))"
  using assms
proof (induction m arbitrary: j stj)
  case 0
  then show ?case by simp
next
  case (Suc m)
  obtain tr r c zs zf s where stj: "stj = ((tr, r, c, zs, zf), s)" by (cases stj) auto
  show ?case
  proof (cases "c < of_int T - tr")
    case True
    with Suc.prems(1) stj obtain st' where
      body: "Convert_body e T dr j stj = Inr st'"
      and rest: "Convert_loop m e T dr (Suc j) st' = Some (Inr (k, st))"
      by (auto split: sum.splits)
    from Suc.prems(2) True body stj have "Convert_steps (Suc j) e T dr st0 = Some st'"
      by simp
    from Suc.IH[OF rest this] show ?thesis .
  next
    case False
    with Suc.prems stj show ?thesis by auto
  qed
qed

lemma Convert_result:
  assumes "Convert fuel e cv = Some (Inr (k, (tr, r, c, zs, zf), s))"
  shows "\<exists>s0. Convert_at k e cv = Some ((tr, r, c, zs, zf), s0)
     \<and> \<not> c < of_int (totalSize_of cv) - tr
     \<and> fed s = fed s0 \<and> reported s = reported s0 \<and> conv s = conv s0
     \<and> written (out s) = written (out s0) @ take (nat (conv_c (conv s0))) (buffer (conv s0))"
proof -
  let ?loop = "Convert_loop fuel e (totalSize_of cv) (radius_step cv) 0 (Convert_init e cv)"
  from assms have ok: "create_ok e"
    unfolding Convert_unfold by (simp split: if_splits)
  from assms ok obtain k' l' s0 where loop: "?loop = Some (Inr (k', l', s0))"
    unfolding Convert_unfold by (cases ?loop) (auto split: sum.splits)
  have fin: "k' = k \<and> l' = (tr, r, c, zs, zf) \<and> fed s = fed s0 \<and> reported s = reported s0 \<and> conv s = conv s0
     \<and> written (out s) = written (out s0) @ take (nat (conv_c (conv s0))) (buffer (conv s0))"
  proof (cases "conv_c (conv s0) > 0")
    case True
    with assms ok loop obtain f' where
      w: "file_Write (take (nat (conv_c (conv s0))) (buffer (conv s0))) (out s0) = Inr f'"
      and s: "s = s0\<lparr>out := f'\<rparr>" and kl: "k' = k" "l' = (tr, r, c, zs, zf)"
      unfolding Convert_unfold by (simp split: if_splits sum.splits)
    from w have "written f' = written (out s0) @ take (nat (conv_c (conv s0))) (buffer (conv s0))"
      by (simp add: file_Write_def split: if_splits) auto
    with s kl show ?thesis by simp
  next
    case False
    with assms ok loop have "s = s0" "k' = k" "l' = (tr, r, c, zs, zf)"
      unfolding Convert_unfold by simp_all
    moreover have "take (nat (conv_c (conv s0))) (buffer (conv s0)) = []"
      using False by simp
    ultimately show ?thesis by simp
  qed
  have "Convert_steps 0 e (totalSize_of cv) (radius_step cv) (Convert_init e cv) = Some (Convert_init e cv)"
    by simp
  from Convert_loop_result[OF loop[unfolded] this] fin show ?thesis
    by (auto simp add: Convert_at_def)
qed

lemma Convert_completes:
  assumes "conv_inv cv" and "create_ok e" and "Convert_at n e cv = Some ((tr, r, c, zs, zf), s)"
    and "\<not> c < of_int (totalSize_of cv) - tr" and "0 \<le> slack s" and "n < fuel"
  shows "\<exists>f'. Convert fuel e cv = Some (Inr (n, (tr, r, c, zs, zf), s\<lparr>out := f'\<rparr>))"
proof -
  let ?T = "totalSize_of cv" and ?dr = "radius_step cv"
  from less_imp_Suc_add[OF assms(6)] obtain m where fuel: "fuel = n + Suc m"
    by auto
  have a: "Convert_loop (n + Suc m) e ?T ?dr 0 (Convert_init e cv)
      = Convert_loop (Suc m) e ?T ?dr n ((tr, r, c, zs, zf), s)"
    by (rule Convert_loop_steps[OF assms(3)[unfolded Convert_at_def]])
  have b: "Convert_loop (Suc m) e ?T ?dr n ((tr, r, c, zs, zf), s) = Some (Inr (n, (tr, r, c, zs, zf), s))"
    using assms(4) by simp
  have loop: "Convert_loop fuel e ?T ?dr 0 (Convert_init e cv) = Some (Inr (n, (tr, r, c, zs, zf), s))"
    unfolding fuel by (simp only: a b)
  note p = Convert_at_props[OF assms(1,3)]
  then have inv: "conv_inv (conv s)" by simp
  then have c: "0 \<le> conv_c (conv s)" "conv_c (conv s) < 2352" "length (buffer (conv s)) = 2352"
    "0 \<le> pinf (conv s)"
    by (simp_all add: conv_inv_def)
  from assms(5) c have le: "conv_c (conv s) \<le> int (room (out s))"
    by (simp add: slack_def budget_def)
  show ?thesis
  proof (cases "conv_c (conv s) > 0")
    case True
    from le have "nat (conv_c (conv s)) \<le> room (out s)"
      by (simp add: nat_le_iff)
    with c obtain f' where
      w: "file_Write (take (nat (conv_c (conv s))) (buffer (conv s))) (out s) = Inr f'"
      by (simp add: file_Write_def)
    have "Convert fuel e cv = Some (Inr (n, (tr, r, c, zs, zf), s\<lparr>out := f'\<rparr>))"
      unfolding Convert_unfold loop using assms(2) True c w by simp
    then show ?thesis by blast
  next
    case False
    have "Convert fuel e cv = Some (Inr (n, (tr, r, c, zs, zf), s))"
      unfolding Convert_unfold loop using assms(2) False by simp
    then show ?thesis by (intro exI[of _ "out s"]) simp
  qed
qed

lemma Convert_not_yet:
  assumes "create_ok e" and "Convert_at n e cv = Some st"
  shows "Convert n e cv = None"
proof -
  have "Convert_loop (n + 0) e (totalSize_of cv) (radius_step cv) 0 (Convert_init e cv)
     = Convert_loop 0 e (totalSize_of cv) (radius_step cv) n st"
    by (rule Convert_loop_steps[OF assms(2)[unfolded Convert_at_def]])
  then have "Convert_loop n e (totalSize_of cv) (radius_step cv) 0 (Convert_init e cv) = None"
    by simp
  then show ?thesis unfolding Convert_unfold using assms(1) by simp
qed

end
